theory Spec2Isabelle
  imports Main "HOL-Library.Sublist"
begin

section \<open>Python text primitives\<close>

text \<open>
  A Python \<open>str\<close> is a sequence of code points. The model takes \<open>string\<close> for it and
  reads a \<open>char\<close> as the code point of the same number, so it covers the texts whose
  code points are below 256, and \<open>length\<close>, \<open>take\<close> and \<open>drop\<close> count what Python's
  \<open>len\<close> and slices count. The character classes below are Python's, cut to that range.
\<close>

definition code_point :: "char \<Rightarrow> nat" where
  "code_point c = of_char c"

text \<open>\<open>str.isspace\<close>: TAB to CR, FS to US, space, NEL and the no-break space.\<close>

definition isspace :: "char \<Rightarrow> bool" where
  "isspace c =
     (let n = code_point c
      in (9 \<le> n \<and> n \<le> 13) \<or> (28 \<le> n \<and> n \<le> 32) \<or> n = 133 \<or> n = 160)"

text \<open>\<open>str.strip()\<close> with no argument drops the whitespace at both ends.\<close>

definition lstrip :: "string \<Rightarrow> string" where
  "lstrip s = dropWhile isspace s"

definition rstrip :: "string \<Rightarrow> string" where
  "rstrip s = rev (dropWhile isspace (rev s))"

definition strip :: "string \<Rightarrow> string" where
  "strip s = rstrip (lstrip s)"

text \<open>\<open>s.replace(a, b)\<close> for one-character \<open>a\<close> and \<open>b\<close>.\<close>

definition replace_char :: "char \<Rightarrow> char \<Rightarrow> string \<Rightarrow> string" where
  "replace_char a b s = map (\<lambda>c. if c = a then b else c) s"

text \<open>\<open>s.startswith(p)\<close>.\<close>

definition startswith :: "string \<Rightarrow> string \<Rightarrow> bool" where
  "startswith s p = (take (length p) s = p)"

text \<open>\<open>sub in s\<close>: some position of \<open>s\<close> starts a copy of \<open>sub\<close>.\<close>

fun py_in :: "string \<Rightarrow> string \<Rightarrow> bool" where
  "py_in sub [] = (sub = [])"
| "py_in sub (c # cs) = (startswith (c # cs) sub \<or> py_in sub cs)"

text \<open>
  \<open>str.lower()\<close>: below 256 the upper-case letters are A to Z and the Latin-1 capitals
  (192 to 222 without the multiplication sign 215); each is 32 below its lower case.
\<close>

definition lower_char :: "char \<Rightarrow> char" where
  "lower_char c =
     (let n = code_point c
      in if (65 \<le> n \<and> n \<le> 90) \<or> (192 \<le> n \<and> n \<le> 222 \<and> n \<noteq> 215)
         then char_of (n + 32) else c)"

definition lower :: "string \<Rightarrow> string" where
  "lower s = map lower_char s"

text \<open>\<open>str(n)\<close> for a natural number.\<close>

definition digit_char :: "nat \<Rightarrow> char" where
  "digit_char d = char_of (48 + d)"

fun str_nat :: "nat \<Rightarrow> string" where
  "str_nat n = (if n < 10 then [digit_char n] else str_nat (n div 10) @ [digit_char (n mod 10)])"

declare str_nat.simps [simp del]


section \<open>Utility functions\<close>

text \<open>The character class of the pattern in \<open>sanitize\<close>: \<open>< > : " / \ | ? *\<close>.\<close>

definition forbidden_chars :: "char list" where
  "forbidden_chars =
     [CHR ''<'', CHR ''>'', CHR '':'', CHR 0x22, CHR ''/'', CHR 0x5C, CHR ''|'', CHR ''?'', CHR ''*'']"

text \<open>
  \<^verbatim>\<open>name = re.sub(r'[<>:"/\\|?*]', '', name)\<close>
  \<^verbatim>\<open>return name.strip().replace(' ', '_')[:150]\<close>
\<close>

definition sanitize :: "string \<Rightarrow> string" where
  "sanitize name =
     (let name1 = filter (\<lambda>c. c \<notin> set forbidden_chars) name
      in take 150 (replace_char (CHR '' '') (CHR ''_'') (strip name1)))"

text \<open>The names under which a paper and the archive are served.\<close>

definition pdf_filename :: "string \<Rightarrow> string" where
  "pdf_filename title = sanitize title @ ''.pdf''"

definition zip_filename :: "string \<Rightarrow> string" where
  "zip_filename topic = sanitize topic @ ''_papers.zip''"

text \<open>
  Truthiness of an optional text: \<^verbatim>\<open>if url:\<close> passes for a text that is neither
  \<open>None\<close> nor empty.
\<close>

fun truthy :: "string option \<Rightarrow> bool" where
  "truthy None = False"
| "truthy (Some s) = (s \<noteq> [])"

text \<open>
  The fields the scraper fills from a result block, and the record it returns, which adds
  the two derived fields.
\<close>

record scraped =
  title :: string
  authors :: string
  year :: string
  abstract :: string
  pdf_link :: "string option"
  source_url :: "string option"

record paper = scraped +
  download_url :: "string option"
  has_pdf :: bool

text \<open>
  \<^verbatim>\<open>url = paper.get("pdf_link")\<close>
  \<^verbatim>\<open>if url: ... return url\<close>
  \<^verbatim>\<open>if paper.get("source_url") and ".pdf" in paper["source_url"].lower(): return paper["source_url"]\<close>
  \<^verbatim>\<open>return None\<close>
\<close>

definition resolve_pdf_url :: "'a scraped_scheme \<Rightarrow> string option" where
  "resolve_pdf_url paper =
     (let url = pdf_link paper
      in if truthy url then
           (case url of
              Some u \<Rightarrow>
                if startswith u ''//'' then Some (''https:'' @ u)
                else if startswith u ''/'' then Some (''https://scholar.google.com'' @ u)
                else Some u
            | None \<Rightarrow> None)
         else
           (case source_url paper of
              Some s \<Rightarrow> if s \<noteq> [] \<and> py_in ''.pdf'' (lower s) then Some s else None
            | None \<Rightarrow> None))"

text \<open>
  The resolver in the words of the specification, where a link that is present is any link,
  the empty one included.
\<close>

definition resolve_pdf_url_spec :: "'a scraped_scheme \<Rightarrow> string option" where
  "resolve_pdf_url_spec paper =
     (case pdf_link paper of
        Some l \<Rightarrow>
          if prefix ''//'' l then Some (''https:'' @ l)
          else if prefix ''/'' l then Some (''https://scholar.google.com'' @ l)
          else Some l
      | None \<Rightarrow>
          (case source_url paper of
             Some s \<Rightarrow> if sublist ''.pdf'' (lower s) then Some s else None
           | None \<Rightarrow> None))"

section \<open>The year pattern\<close>

text \<open>
  \<^verbatim>\<open>re.search(r'\b(19|20)\d{2}\b', text)\<close>. For a \<open>str\<close> pattern \<open>\d\<close> is a decimal
  digit and \<open>\w\<close> is an alphanumeric character or the underscore; \<open>\b\<close> holds between
  two positions of which exactly one holds a \<open>\w\<close> character, the outside of the text
  counting as none.
\<close>

definition isdecimal :: "char \<Rightarrow> bool" where
  "isdecimal c = (let n = code_point c in 48 \<le> n \<and> n \<le> 57)"

definition is_word :: "char \<Rightarrow> bool" where
  "is_word c =
     (let n = code_point c
      in (48 \<le> n \<and> n \<le> 57) \<or> (65 \<le> n \<and> n \<le> 90) \<or> n = 95 \<or> (97 \<le> n \<and> n \<le> 122)
         \<or> n = 170 \<or> n = 178 \<or> n = 179 \<or> n = 181 \<or> n = 185 \<or> n = 186
         \<or> (188 \<le> n \<and> n \<le> 190) \<or> (192 \<le> n \<and> n \<le> 214) \<or> (216 \<le> n \<and> n \<le> 246)
         \<or> (248 \<le> n \<and> n \<le> 255))"

fun is_word_at :: "char option \<Rightarrow> bool" where
  "is_word_at None = False"
| "is_word_at (Some c) = is_word c"

definition word_boundary :: "char option \<Rightarrow> char option \<Rightarrow> bool" where
  "word_boundary c1 c2 = (is_word_at c1 \<noteq> is_word_at c2)"

text \<open>The pattern matches at the head of \<open>s\<close>, the character before it being \<open>prev\<close>.\<close>

fun year_match_here :: "char option \<Rightarrow> string \<Rightarrow> bool" where
  "year_match_here prev (a # b # c # d # rest) =
     (word_boundary prev (Some a)
      \<and> ([a, b] = ''19'' \<or> [a, b] = ''20'')
      \<and> isdecimal c \<and> isdecimal d
      \<and> word_boundary (Some d) (case rest of [] \<Rightarrow> None | e # _ \<Rightarrow> Some e))"
| "year_match_here prev _ = False"

text \<open>The search tries every position from the left and returns the first match.\<close>

fun re_search_year :: "char option \<Rightarrow> string \<Rightarrow> string option" where
  "re_search_year prev [] = None"
| "re_search_year prev (c # cs) =
     (if year_match_here prev (c # cs) then Some (take 4 (c # cs))
      else re_search_year (Some c) cs)"

text \<open>
  \<^verbatim>\<open>year_match = re.search(r'\b(19|20)\d{2}\b', paper["authors"])\<close>
  \<^verbatim>\<open>paper["year"] = year_match.group() if year_match else "N/A"\<close>
\<close>

definition extract_year :: "string \<Rightarrow> string" where
  "extract_year text = (case re_search_year None text of Some y \<Rightarrow> y | None \<Rightarrow> ''N/A'')"

text \<open>
  The specification's year token at position \<open>i\<close>: the four characters from \<open>i\<close> on are
  decimal digits, the first two being 19 or 20, and neither the character right before
  them nor the one right after them, where the text has one, is a word character.
\<close>

definition year_token_at :: "string \<Rightarrow> nat \<Rightarrow> bool" where
  "year_token_at text i =
     (let token = take 4 (drop i text);
          char_before = (if i = 0 then [] else take 1 (drop (i - 1) text));
          char_after = take 1 (drop (i + 4) text)
      in length token = 4 \<and> list_all isdecimal token
         \<and> (take 2 token = ''19'' \<or> take 2 token = ''20'')
         \<and> \<not> list_ex is_word char_before \<and> \<not> list_ex is_word char_after)"

text \<open>The character right before the suffix that follows \<open>pre\<close>, if there is one.\<close>

definition last_char :: "string \<Rightarrow> char option" where
  "last_char pre = (if pre = [] then None else Some (last pre))"

section \<open>Scraper core\<close>

text \<open>
  What the scraper reads from one \<open>div.gs_r\<close> of the parsed page: the text of the
  \<open>h3.gs_rt\<close> with the \<open>href\<close> of its first link, the text of \<open>div.gs_a\<close>, the text of
  \<open>div.gs_rs\<close>, and the \<open>href\<close> of the first link whose text matches \<open>[PDF]\<close>. Each is
  \<open>None\<close> where \<open>find\<close> returns nothing.
\<close>

record result_block =
  title_tag :: "(string \<times> string option) option"
  info_tag :: "string option"
  abs_tag :: "string option"
  pdf_tag :: "string option"

text \<open>
  The outside world. A request is answered from the events so far and the URL, so the
  same URL may be answered differently later; \<open>RequestException\<close> stands for both a
  transport error and the error \<open>raise_for_status\<close> raises. \<open>find_results\<close> is the HTML
  parser with \<open>find_all("div", class_="gs_r")\<close>, \<open>urlencode\<close> the library's.
\<close>

datatype event = Fetch string | Sleep nat

datatype response = RequestException string | HttpOk string

record env =
  http_get :: "event list \<Rightarrow> string \<Rightarrow> response"
  find_results :: "string \<Rightarrow> result_block list"
  urlencode :: "(string \<times> string) list \<Rightarrow> string"

definition REQUEST_DELAY :: nat where
  "REQUEST_DELAY = 2"

definition MAX_RESULTS :: int where
  "MAX_RESULTS = 30"

definition build_scholar_url :: "env \<Rightarrow> string \<Rightarrow> nat \<Rightarrow> string" where
  "build_scholar_url e topic start =
     ''https://scholar.google.com/scholar'' @ ''?''
       @ urlencode e [(''q'', topic), (''start'', str_nat start), (''hl'', ''en''), (''as_sdt'', ''0,5'')]"

text \<open>The body of the loop over the result blocks of a page.\<close>

definition extract_paper :: "result_block \<Rightarrow> paper" where
  "extract_paper item =
     (let title_v = (case title_tag item of Some (t, _) \<Rightarrow> t | None \<Rightarrow> ''Untitled'');
          authors_v = (case info_tag item of Some a \<Rightarrow> a | None \<Rightarrow> ''Unknown'');
          year_v = extract_year authors_v;
          abstract_v = (case abs_tag item of Some a \<Rightarrow> a | None \<Rightarrow> []);
          pdf_link_v = pdf_tag item;
          source_url_v = (case title_tag item of Some (_, h) \<Rightarrow> h | None \<Rightarrow> None);
          fields = \<lparr>title = title_v, authors = authors_v, year = year_v, abstract = abstract_v,
                     pdf_link = pdf_link_v, source_url = source_url_v\<rparr>;
          download_url_v = resolve_pdf_url fields
      in scraped.extend fields
           (paper.fields download_url_v (download_url_v \<noteq> None)))"

text \<open>\<open>xs[:n]\<close>; a negative \<open>n\<close> counts from the end.\<close>

definition slice_to :: "'a list \<Rightarrow> int \<Rightarrow> 'a list" where
  "slice_to xs n = (if 0 \<le> n then take (nat n) xs else take (length xs - nat (- n)) xs)"

text \<open>
  The loop over the pages, on the page indices still to visit; each \<open>break\<close> returns the
  papers gathered and the events so far.
\<close>

fun scrape_pages ::
  "env \<Rightarrow> string \<Rightarrow> int \<Rightarrow> nat list \<Rightarrow> paper list \<Rightarrow> event list \<Rightarrow> paper list \<times> event list"
where
  "scrape_pages e topic num_results [] all_papers tr = (all_papers, tr)"
| "scrape_pages e topic num_results (page_idx # rest) all_papers tr =
     (let offset = page_idx * 10;
          url = build_scholar_url e topic offset
      in case http_get e tr url of
           RequestException _ \<Rightarrow> (all_papers, tr @ [Fetch url])
         | HttpOk body \<Rightarrow>
             (let tr1 = tr @ [Fetch url];
                  results = find_results e body
              in if results = [] then (all_papers, tr1)
                 else
                   (let all_papers1 = all_papers @ map extract_paper results
                    in if num_results \<le> int (length all_papers1) then (all_papers1, tr1)
                       else scrape_pages e topic num_results rest all_papers1
                              (tr1 @ [Sleep REQUEST_DELAY]))))"

definition scrape_scholar :: "env \<Rightarrow> string \<Rightarrow> int \<Rightarrow> paper list \<times> event list" where
  "scrape_scholar e topic num_results =
     (let pages_needed = num_results div 10 + 1;
          (all_papers, tr) = scrape_pages e topic num_results [0..<nat pages_needed] [] []
      in (slice_to all_papers num_results, tr))"

section \<open>API routes\<close>

text \<open>
  A route returns a status and a body. The JSON bodies are the error object, the search
  object with no result (error, empty \<open>papers\<close>, \<open>count\<close> 0) and the search object
  (\<open>papers\<close>, \<open>count\<close>, \<open>topic\<close>); the files are a PDF (content, filename) and the archive,
  as the entries written into it in order (name, content) with its filename. An exception
  that leaves a route is answered by the framework with status 500 and its error page.
\<close>

datatype body =
    ErrorJson string
  | NoResultsJson string
  | SearchJson "paper list" nat string
  | PdfFile string string
  | ZipFile "(string \<times> string) list" string
  | InternalServerError

type_synonym route_result = "(nat \<times> body) \<times> event list"

text \<open>The request body of \<open>/api/search\<close>; a key that is absent is \<open>None\<close>.\<close>

record search_request =
  get_topic :: "string option"
  get_num_results :: "int option"

definition search :: "env \<Rightarrow> search_request \<Rightarrow> route_result" where
  "search e data =
     (let topic = strip (case get_topic data of Some t \<Rightarrow> t | None \<Rightarrow> ''KNN nanorods'');
          num = min (case get_num_results data of Some n \<Rightarrow> n | None \<Rightarrow> 10) MAX_RESULTS
      in if topic = [] then ((400, ErrorJson ''Topic is required''), [])
         else
           (let (papers, tr) = scrape_scholar e topic num
            in if papers = [] then
                 ((200, NoResultsJson
                    (''No results returned. Google Scholar may be blocking automated requests. ''
                       @ ''See README for solutions.'')), tr)
               else ((200, SearchJson papers (length papers) topic), tr)))"

text \<open>The \<open>papers\<close> field of a search body.\<close>

fun papers_of :: "body \<Rightarrow> paper list" where
  "papers_of (SearchJson papers _ _) = papers"
| "papers_of _ = []"

text \<open>The request body of \<open>/api/download\<close>.\<close>

record download_request =
  get_url :: "string option"
  get_req_title :: "string option"

text \<open>
  \<^verbatim>\<open>headers={"Content-Disposition": f'attachment; filename="{filename}"'}\<close>. The
  framework's \<open>Response\<close> refuses a header value that holds a carriage return or a line
  feed: it raises \<open>ValueError\<close> with the message below.
\<close>

definition content_disposition :: "string \<Rightarrow> string" where
  "content_disposition filename = ''attachment; filename='' @ [CHR 0x22] @ filename @ [CHR 0x22]"

definition header_value_ok :: "string \<Rightarrow> bool" where
  "header_value_ok v = (CHR 0x0D \<notin> set v \<and> CHR 0x0A \<notin> set v)"

definition header_error :: string where
  "header_error = ''Header values must not contain newline characters.''"

text \<open>\<^verbatim>\<open>content[:4] != b'%PDF'\<close> decides whether the payload is served.\<close>

definition is_pdf :: "string \<Rightarrow> bool" where
  "is_pdf content = (take 4 content = ''%PDF'')"

definition download_single :: "env \<Rightarrow> download_request \<Rightarrow> route_result" where
  "download_single e data =
     (let url = get_url data;
          title_v = (case get_req_title data of Some t \<Rightarrow> t | None \<Rightarrow> ''paper'')
      in if \<not> truthy url then ((400, ErrorJson ''URL is required''), [])
         else
           (case url of
              None \<Rightarrow> ((400, ErrorJson ''URL is required''), [])
            | Some u \<Rightarrow>
                (case http_get e [] u of
                   RequestException msg \<Rightarrow>
                     ((500, ErrorJson (''Download failed: '' @ msg)), [Fetch u])
                 | HttpOk content \<Rightarrow>
                     if \<not> is_pdf content then
                       ((400, ErrorJson ''The URL does not serve a valid PDF file.''), [Fetch u])
                     else
                       (let filename = pdf_filename title_v
                        in if \<not> header_value_ok (content_disposition filename) then
                             ((500, ErrorJson (''Download failed: '' @ header_error)), [Fetch u])
                           else ((200, PdfFile content filename), [Fetch u])))))"

text \<open>
  One element of \<open>papers\<close> in the request body of \<open>/api/download-zip\<close>, by the keys the
  route reads with \<open>paper.get\<close>; \<open>None\<close> is an absent key (for \<open>download_url\<close> also
  \<open>null\<close>, which is what the scraper sends for a paper without PDF).
\<close>

record paper_json =
  get_download_url :: "string option"
  get_title :: "string option"
  get_authors :: "string option"
  get_year :: "string option"
  get_abstract :: "string option"

record zip_request =
  get_papers :: "paper_json list option"
  get_zip_topic :: "string option"

definition or_na :: "string option \<Rightarrow> string" where
  "or_na v = (case v of Some s \<Rightarrow> s | None \<Rightarrow> ''N/A'')"

definition title_or_default :: "nat \<Rightarrow> paper_json \<Rightarrow> string" where
  "title_or_default i p = (case get_title p of Some t \<Rightarrow> t | None \<Rightarrow> ''paper_'' @ str_nat (i + 1))"

text \<open>The six lines appended to \<open>metadata_lines\<close> for the paper at index \<open>i\<close>.\<close>

definition report_block :: "nat \<times> paper_json \<Rightarrow> string list" where
  "report_block ip =
     (let i = fst ip; p = snd ip; url = get_download_url p
      in [''['' @ str_nat (i + 1) @ ''] '' @ title_or_default i p,
          ''    Authors  : '' @ or_na (get_authors p),
          ''    Year     : '' @ or_na (get_year p),
          ''    Abstract : '' @ take 200 (or_na (get_abstract p)),
          ''    PDF URL  : '' @ (case url of Some u \<Rightarrow> if u = [] then ''N/A'' else u | None \<Rightarrow> ''N/A''),
          []])"

text \<open>
  The state of the loop of \<open>download_zip\<close>: the entries written to \<open>zf\<close>, the counter,
  the report lines, and the events so far.
\<close>

record zip_state =
  zf :: "(string \<times> string) list"
  downloaded :: nat
  metadata_lines :: "string list"
  events :: "event list"

text \<open>
  \<open>zf.writestr(filename, data)\<close> of the standard library (CPython 3.11) cuts the name at
  its first NUL character, and raises \<open>IndexError\<close> when the name is then empty, since it
  reads the last character of the name; otherwise it appends the entry, also when an entry
  of that name exists.
\<close>

definition arcname :: "string \<Rightarrow> string" where
  "arcname filename = takeWhile (\<lambda>c. c \<noteq> CHR 0x00) filename"

text \<open>
  One turn of the loop. Each \<open>continue\<close> returns the state as it is at that point: the
  one for a paper without URL, the one for a payload that is no PDF, and the one of the
  exception handler (a failed request, or the \<open>IndexError\<close> of \<open>writestr\<close>) all leave the
  loop body before \<^verbatim>\<open>time.sleep(1)\<close>.
\<close>

definition zip_step :: "env \<Rightarrow> zip_state \<Rightarrow> nat \<times> paper_json \<Rightarrow> zip_state" where
  "zip_step e st ip =
     (let i = fst ip; p = snd ip;
          url = get_download_url p;
          title_v = title_or_default i p;
          st1 = st\<lparr>metadata_lines := metadata_lines st @ report_block ip\<rparr>
      in if \<not> truthy url then st1
         else
           (case url of
              None \<Rightarrow> st1
            | Some u \<Rightarrow>
                (case http_get e (events st1) u of
                   RequestException _ \<Rightarrow> st1\<lparr>events := events st1 @ [Fetch u]\<rparr>
                 | HttpOk content \<Rightarrow>
                     if \<not> is_pdf content then st1\<lparr>events := events st1 @ [Fetch u]\<rparr>
                     else if arcname (pdf_filename title_v) = [] then
                       st1\<lparr>events := events st1 @ [Fetch u]\<rparr>
                     else st1\<lparr>zf := zf st1 @ [(arcname (pdf_filename title_v), content)],
                              downloaded := downloaded st1 + 1,
                              events := events st1 @ [Fetch u, Sleep 1]\<rparr>)))"

definition zip_init :: zip_state where
  "zip_init = \<lparr>zf = [], downloaded = 0, metadata_lines = [], events = []\<rparr>"

definition zip_loop :: "env \<Rightarrow> paper_json list \<Rightarrow> zip_state" where
  "zip_loop e papers = foldl (zip_step e) zip_init (enumerate 0 papers)"

definition newline :: string where
  "newline = [CHR 0x0A]"




fun is_sleep :: "event \<Rightarrow> bool" where
  "is_sleep (Sleep _) = True"
| "is_sleep (Fetch _) = False"

fun is_fetch :: "event \<Rightarrow> bool" where
  "is_fetch (Fetch _) = True"
| "is_fetch (Sleep _) = False"

text \<open>
  What every turn of the loop of \<open>download_zip\<close> keeps: the counter is the number of
  entries written, every entry is a PDF payload, and the delays are as many as the entries.
\<close>

definition zip_inv :: "zip_state \<Rightarrow> bool" where
  "zip_inv st =
     (length (zf st) = downloaded st
      \<and> list_all (\<lambda>entry. is_pdf (snd entry)) (zf st)
      \<and> length (filter is_sleep (events st)) = downloaded st)"

text \<open>The URLs requested in a run, in order.\<close>

fun fetched_urls :: "event list \<Rightarrow> string list" where
  "fetched_urls [] = []"
| "fetched_urls (Fetch u # rest) = u # fetched_urls rest"
| "fetched_urls (Sleep d # rest) = fetched_urls rest"

text \<open>The URLs of the records that have one, in order.\<close>

fun record_urls :: "paper_json list \<Rightarrow> string list" where
  "record_urls [] = []"
| "record_urls (p # ps) =
     (case get_download_url p of
        Some u \<Rightarrow> if u = [] then record_urls ps else u # record_urls ps
      | None \<Rightarrow> record_urls ps)"



section \<open>Example inputs\<close>

text \<open>Scraped fields with the two links given, for the resolver's examples.\<close>

definition ex_fields :: "string option \<Rightarrow> string option \<Rightarrow> scraped" where
  "ex_fields l s =
     \<lparr>title = ''T'', authors = ''A'', year = ''N/A'', abstract = [], pdf_link = l, source_url = s\<rparr>"

text \<open>
  A result block with a title link, a byline and a \<open>[PDF]\<close> link, and a world in which
  every request is answered by a page of \<open>k\<close> such blocks; a world in which every
  request fails; and one that answers every request with the given payload.
\<close>

definition ex_block :: result_block where
  "ex_block =
     \<lparr>title_tag = Some (''A paper'', Some ''http://x.com/paper''),
      info_tag = Some ''J. Smith - 2019 - Journal'',
      abs_tag = Some ''Abstract'',
      pdf_tag = Some ''//host/a.pdf''\<rparr>"

definition ex_env_pages :: "nat \<Rightarrow> env" where
  "ex_env_pages k =
     \<lparr>http_get = (\<lambda>tr url. HttpOk []),
      find_results = (\<lambda>body. replicate k ex_block),
      urlencode = (\<lambda>params. [])\<rparr>"

definition ex_env_down :: env where
  "ex_env_down =
     \<lparr>http_get = (\<lambda>tr url. RequestException ''timeout''),
      find_results = (\<lambda>body. []),
      urlencode = (\<lambda>params. [])\<rparr>"

definition ex_env_payload :: "string \<Rightarrow> env" where
  "ex_env_payload content =
     \<lparr>http_get = (\<lambda>tr url. HttpOk content),
      find_results = (\<lambda>body. []),
      urlencode = (\<lambda>params. [])\<rparr>"

text \<open>A paper of a bulk request with the given URL and title.\<close>

definition ex_paper_json :: "string option \<Rightarrow> string \<Rightarrow> paper_json" where
  "ex_paper_json u t =
     \<lparr>get_download_url = u, get_title = Some t, get_authors = Some ''A'',
      get_year = Some ''2019'', get_abstract = Some ''Abstract''\<rparr>"

text \<open>
  A world with three hosts: one serves a PDF, one serves an HTML page, any other request
  fails. The bulk request asks for a paper on each of them and for one without URL.
\<close>

definition ex_env_hosts :: env where
  "ex_env_hosts =
     \<lparr>http_get = (\<lambda>tr url.
         if url = ''http://a/ok.pdf'' then HttpOk ''%PDF-1.4 body''
         else if url = ''http://b/page'' then HttpOk ''<html>''
         else RequestException ''timeout''),
      find_results = (\<lambda>body. []),
      urlencode = (\<lambda>params. [])\<rparr>"

definition ex_papers :: "paper_json list" where
  "ex_papers =
     [ex_paper_json (Some ''http://a/ok.pdf'') ''Good paper'',
      ex_paper_json (Some ''http://b/page'') ''Landing page'',
      ex_paper_json None ''No link'',
      ex_paper_json (Some ''http://c/down.pdf'') ''Host down'']"

definition ex_zip_request :: zip_request where
  "ex_zip_request = \<lparr>get_papers = Some ex_papers, get_zip_topic = Some ''my topic''\<rparr>"




text \<open>A result block in which nothing is found.\<close>

definition ex_block_bare :: result_block where
  "ex_block_bare = \<lparr>title_tag = None, info_tag = None, abs_tag = None, pdf_tag = None\<rparr>"


section \<open>Whitespace stripping\<close>

lemma isspace_blank: "isspace (CHR '' '')"
  by (simp add: isspace_def code_point_def)

lemma not_isspace_underscore: "\<not> isspace (CHR ''_'')"
  by (simp add: isspace_def code_point_def)

lemma rstrip_take: "rstrip s = take (length s - length (takeWhile isspace (rev s))) s"
  by (simp add: rstrip_def dropWhile_eq_drop rev_drop)

lemma lstrip_id_iff: "lstrip s = s \<longleftrightarrow> s = [] \<or> \<not> isspace (hd s)"
proof (cases s)
  case Nil
  then show ?thesis by (simp add: lstrip_def)
next
  case (Cons a list)
  have "length (dropWhile isspace list) \<le> length list"
    by (rule length_dropWhile_le)
  then have "dropWhile isspace list \<noteq> a # list"
    by auto
  then show ?thesis using Cons by (simp add: lstrip_def)
qed

lemma rstrip_id_iff: "rstrip s = s \<longleftrightarrow> s = [] \<or> \<not> isspace (last s)"
proof (cases "s = []")
  case True
  then show ?thesis by (simp add: rstrip_def)
next
  case False
  then have ne: "s \<noteq> []" .
  then have r: "rev s = last s # rev (butlast s)"
    by (metis append_butlast_last_id rev_append rev_singleton_conv append_Cons append_Nil)
  show ?thesis
  proof (cases "isspace (last s)")
    case True
    have "length (rstrip s) < length s"
      using True ne by (simp add: rstrip_take r)
    then show ?thesis using True ne by auto
  next
    case False
    then show ?thesis using ne by (simp add: rstrip_def r)
  qed
qed

lemma set_rstrip: "set (rstrip s) \<subseteq> set s"
  by (simp add: rstrip_take set_take_subset)

lemma set_lstrip: "set (lstrip s) \<subseteq> set s"
  by (auto simp: lstrip_def dest: set_dropWhileD)

lemma set_strip: "set (strip s) \<subseteq> set s"
  using set_rstrip set_lstrip unfolding strip_def by blast

lemma length_rstrip: "length (rstrip s) \<le> length s"
  by (simp add: rstrip_take)

lemma length_strip: "length (strip s) \<le> length s"
  by (simp add: strip_def rstrip_take lstrip_def length_dropWhile_le le_diff_conv trans_le_add1)

lemma hd_lstrip: "lstrip s \<noteq> [] \<Longrightarrow> \<not> isspace (hd (lstrip s))"
  unfolding lstrip_def by (rule hd_dropWhile)

lemma last_rstrip: "rstrip s \<noteq> [] \<Longrightarrow> \<not> isspace (last (rstrip s))"
  unfolding rstrip_def by (simp add: last_rev hd_dropWhile)

lemma hd_rstrip: "rstrip s \<noteq> [] \<Longrightarrow> hd (rstrip s) = hd s"
  by (metis rstrip_take hd_take take_eq_Nil gr0I)

lemma hd_strip: "strip s \<noteq> [] \<Longrightarrow> \<not> isspace (hd (strip s))"
  unfolding strip_def
  by (metis hd_rstrip hd_lstrip rstrip_def dropWhile.simps(1) rev.simps(1))

lemma last_strip: "strip s \<noteq> [] \<Longrightarrow> \<not> isspace (last (strip s))"
  unfolding strip_def by (rule last_rstrip)

section \<open>Filename sanitization\<close>

lemma sanitize_no_forbidden: "c \<in> set (sanitize s) \<Longrightarrow> c \<notin> set forbidden_chars"
  unfolding sanitize_def Let_def replace_char_def strip_def rstrip_def lstrip_def
  apply (drule in_set_takeD)
  apply (auto simp: forbidden_chars_def dest!: set_dropWhileD split: if_splits)
  done

lemma sanitize_no_blank: "CHR '' '' \<notin> set (sanitize s)"
  unfolding sanitize_def Let_def replace_char_def
  by (auto dest!: in_set_takeD)

lemma length_sanitize: "length (sanitize s) \<le> 150"
  by (simp add: sanitize_def Let_def)

lemma replace_char_absent: "a \<notin> set s \<Longrightarrow> replace_char a b s = s"
  by (induction s) (auto simp: replace_char_def)

lemma filter_allowed_id:
  "(\<And>c. c \<in> set s \<Longrightarrow> c \<notin> set forbidden_chars) \<Longrightarrow>
    filter (\<lambda>c. c \<notin> set forbidden_chars) s = s"
  by (induction s) auto

lemma hd_sanitize: "sanitize s \<noteq> [] \<Longrightarrow> \<not> isspace (hd (sanitize s))"
proof -
  let ?u = "strip (filter (\<lambda>c. c \<notin> set forbidden_chars) s)"
  assume ne: "sanitize s \<noteq> []"
  then have u: "?u \<noteq> []"
    by (auto simp: sanitize_def Let_def replace_char_def)
  then have nsp: "\<not> isspace (hd ?u)" by (rule hd_strip)
  then have "hd ?u \<noteq> CHR '' ''" using isspace_blank by auto
  then have "hd (sanitize s) = hd ?u"
    using u by (simp add: sanitize_def Let_def replace_char_def hd_map)
  then show ?thesis using nsp by simp
qed

text \<open>
  A sanitized name has no forbidden character, no blank and no whitespace in front, and
  is short enough, so sanitizing it again only strips it on the right.
\<close>

lemma sanitize_sanitize: "sanitize (sanitize s) = rstrip (sanitize s)"
proof -
  let ?t = "sanitize s"
  have f: "filter (\<lambda>c. c \<notin> set forbidden_chars) ?t = ?t"
    by (rule filter_allowed_id) (rule sanitize_no_forbidden)
  have l: "lstrip ?t = ?t"
    using hd_sanitize [of s] by (auto simp: lstrip_id_iff)
  have "CHR '' '' \<notin> set (rstrip ?t)"
    using set_rstrip [of ?t] sanitize_no_blank [of s] by blast
  then have r: "replace_char (CHR '' '') (CHR ''_'') (rstrip ?t) = rstrip ?t"
    by (rule replace_char_absent)
  have "length (rstrip ?t) \<le> 150"
    using length_rstrip [of ?t] length_sanitize [of s] by linarith
  then have t: "take 150 (rstrip ?t) = rstrip ?t" by simp
  have "sanitize ?t = take 150 (replace_char (CHR '' '') (CHR ''_'') (strip ?t))"
    unfolding sanitize_def [of ?t] Let_def f ..
  also have "\<dots> = rstrip ?t"
    by (simp add: strip_def l r t)
  finally show ?thesis .
qed

lemma sanitize_short:
  assumes "length s \<le> 150" and ne: "sanitize s \<noteq> []"
  shows "\<not> isspace (last (sanitize s))"
proof -
  let ?u = "strip (filter (\<lambda>c. c \<notin> set forbidden_chars) s)"
  have "length ?u \<le> length (filter (\<lambda>c. c \<notin> set forbidden_chars) s)"
    by (rule length_strip)
  also have "\<dots> \<le> length s" by simp
  finally have len: "length ?u \<le> 150" using assms(1) by simp
  then have eq: "sanitize s = replace_char (CHR '' '') (CHR ''_'') ?u"
    by (simp add: sanitize_def Let_def replace_char_def)
  then have u: "?u \<noteq> []" using ne by (auto simp: replace_char_def)
  then have nsp: "\<not> isspace (last ?u)" by (rule last_strip)
  then have "last ?u \<noteq> CHR '' ''" using isspace_blank by auto
  then have "last (sanitize s) = last ?u"
    using u unfolding eq by (simp add: replace_char_def last_map)
  then show ?thesis using nsp by simp
qed

lemma sanitize_only_blanks:
  assumes "\<forall>c \<in> set s. isspace c \<longrightarrow> c = CHR '' ''" and "c \<in> set (sanitize s)"
  shows "\<not> isspace c"
proof -
  have "c \<in> set (replace_char (CHR '' '') (CHR ''_'')
                    (strip (filter (\<lambda>c. c \<notin> set forbidden_chars) s)))"
    using assms(2) by (auto simp: sanitize_def Let_def dest: in_set_takeD)
  then obtain d where d: "d \<in> set (strip (filter (\<lambda>c. c \<notin> set forbidden_chars) s))"
      and c: "c = (if d = CHR '' '' then CHR ''_'' else d)"
    by (auto simp: replace_char_def)
  from d have "d \<in> set s" using set_strip by fastforce
  then show ?thesis using assms(1) c not_isspace_underscore by auto
qed

text \<open>
  C7, as stated: \<open>sanitize (sanitize s) = sanitize s\<close> for every \<open>s\<close>. It fails where the
  cut at 150 characters falls right after a whitespace character other than the blank,
  which \<open>strip\<close> had left inside the name: 149 letters, a TAB and one more letter are cut
  to 149 letters and the TAB, and the second pass strips the TAB.
\<close>

theorem sanitize_idempotent_counterexample:
  "sanitize (sanitize (replicate 149 (CHR ''a'') @ [CHR 0x09, CHR ''b'']))
     \<noteq> sanitize (replicate 149 (CHR ''a'') @ [CHR 0x09, CHR ''b''])"
  by code_simp

text \<open>
  C7, amended: sanitizing a sanitized name gives the same name exactly when the
  sanitized name does not end in a whitespace character; this is so for every input of at
  most 150 characters and for every input whose only whitespace is the blank.
\<close>

theorem sanitize_idempotent_iff:
  "(sanitize (sanitize s) = sanitize s
      \<longleftrightarrow> sanitize s = [] \<or> \<not> isspace (last (sanitize s)))
   \<and> (length s \<le> 150 \<longrightarrow> sanitize (sanitize s) = sanitize s)
   \<and> ((\<forall>c \<in> set s. isspace c \<longrightarrow> c = CHR '' '') \<longrightarrow> sanitize (sanitize s) = sanitize s)"
proof (intro conjI impI)
  show "sanitize (sanitize s) = sanitize s
      \<longleftrightarrow> sanitize s = [] \<or> \<not> isspace (last (sanitize s))"
    by (simp add: sanitize_sanitize rstrip_id_iff)
next
  assume "length s \<le> 150"
  then show "sanitize (sanitize s) = sanitize s"
    using sanitize_short [of s] by (auto simp: sanitize_sanitize rstrip_id_iff)
next
  assume a: "\<forall>c \<in> set s. isspace c \<longrightarrow> c = CHR '' ''"
  show "sanitize (sanitize s) = sanitize s"
    using sanitize_only_blanks [OF a, of "last (sanitize s)"]
    by (auto simp: sanitize_sanitize rstrip_id_iff)
qed

theorem sanitize_idempotent_iff_witness:
  "length ''a b:c'' \<le> 150
   \<and> filter isspace ''a b:c'' = '' ''
   \<and> sanitize ''a b:c'' = ''a_bc''
   \<and> \<not> isspace (last (sanitize ''a b:c''))
   \<and> sanitize (sanitize ''a b:c'') = sanitize ''a b:c''"
proof -
  have len: "length ''a b:c'' \<le> 150" by simp
  have ws: "filter isspace ''a b:c'' = '' ''"
    by (simp add: isspace_def code_point_def)
  then have only: "\<forall>c \<in> set ''a b:c''. isspace c \<longrightarrow> c = CHR '' ''"
    by (simp add: isspace_def code_point_def)
  have val: "sanitize ''a b:c'' = ''a_bc''" by code_simp
  have idem: "sanitize (sanitize ''a b:c'') = sanitize ''a b:c''"
    using sanitize_idempotent_iff [of "''a b:c''"] only by blast
  have "\<not> isspace (last (sanitize ''a b:c''))"
    using sanitize_idempotent_iff [of "''a b:c''"] idem val by auto
  then show ?thesis using len ws val idem by blast
qed

text \<open>
  C10: \<open>sanitize\<close> is a total function of its input text; its result has no character of
  the set \<open>< > : " / \ | ? *\<close> and at most 150 characters. The result may be empty, as for
  a title made of forbidden characters only, and then the PDF is served as \<open>.pdf\<close> and
  the archive as \<open>_papers.zip\<close>.
\<close>

theorem sanitize_safe:
  "(\<forall>c \<in> set (sanitize s). c \<notin> set forbidden_chars)
   \<and> length (sanitize s) \<le> 150
   \<and> sanitize forbidden_chars = []
   \<and> (sanitize s = [] \<longrightarrow> pdf_filename s = ''.pdf'' \<and> zip_filename s = ''_papers.zip'')"
proof (intro conjI ballI impI)
  show "sanitize forbidden_chars = []" by code_simp
qed (simp_all add: sanitize_no_forbidden length_sanitize pdf_filename_def zip_filename_def)

theorem sanitize_safe_witness:
  "sanitize ''a<b>?'' = ''ab''
   \<and> set (sanitize ''a<b>?'') \<inter> set forbidden_chars = {}
   \<and> length (sanitize ''a<b>?'') \<le> 150
   \<and> sanitize ''<|>'' = []
   \<and> pdf_filename ''<|>'' = ''.pdf'' \<and> zip_filename ''<|>'' = ''_papers.zip''"
proof -
  have v1: "sanitize ''a<b>?'' = ''ab''" by code_simp
  have v2: "sanitize ''<|>'' = []" by code_simp
  have "set (sanitize ''a<b>?'') \<inter> set forbidden_chars = {}"
    using sanitize_safe [of "''a<b>?''"] by blast
  then show ?thesis
    using sanitize_safe [of "''a<b>?''"] sanitize_safe [of "''<|>''"] v1 v2 by blast
qed

section \<open>The PDF-link resolver\<close>

lemma startswith_prefix: "startswith s p \<longleftrightarrow> prefix p s"
  unfolding startswith_def prefix_def
  by (metis append_eq_conv_conj append_take_drop_id)

lemma py_in_sublist: "py_in sub s \<longleftrightarrow> sublist sub s"
  by (induction s) (auto simp: startswith_prefix sublist_Cons_right)

lemma prefix_two_slashes: "prefix ''//'' l \<Longrightarrow> prefix ''/'' l"
  by (auto simp: prefix_def)

lemma resolve_pdf_url_nonempty: "resolve_pdf_url p = Some u \<Longrightarrow> u \<noteq> []"
  by (auto simp: resolve_pdf_url_def Let_def split: option.splits if_splits)

text \<open>
  C2, as stated: a \<open>pdf_link\<close> that is present decides the result. The code tests the
  link's truth value, so an empty link counts as absent: with an empty \<open>pdf_link\<close> and a
  \<open>source_url\<close> that names a PDF the code returns the source URL, where the claim's rule
  returns the empty link.
\<close>

theorem resolve_pdf_url_counterexample:
  "resolve_pdf_url (ex_fields (Some []) (Some ''http://x.com/a.pdf'')) = Some ''http://x.com/a.pdf''
   \<and> resolve_pdf_url_spec (ex_fields (Some []) (Some ''http://x.com/a.pdf'')) = Some []"
  by (simp add: resolve_pdf_url_def resolve_pdf_url_spec_def ex_fields_def) code_simp

text \<open>
  C2, amended: the first three rules apply to a \<open>pdf_link\<close> that is present and not
  empty; with \<open>pdf_link\<close> absent or empty, a \<open>source_url\<close> whose lower-case form contains
  \<open>.pdf\<close> is returned as it is, and otherwise the result is none.
\<close>

theorem resolve_pdf_url_cases:
  "(\<forall>l. pdf_link p = Some l \<and> l \<noteq> [] \<and> prefix ''//'' l
        \<longrightarrow> resolve_pdf_url p = Some (''https:'' @ l))
   \<and> (\<forall>l. pdf_link p = Some l \<and> l \<noteq> [] \<and> \<not> prefix ''//'' l \<and> prefix ''/'' l
        \<longrightarrow> resolve_pdf_url p = Some (''https://scholar.google.com'' @ l))
   \<and> (\<forall>l. pdf_link p = Some l \<and> l \<noteq> [] \<and> \<not> prefix ''/'' l
        \<longrightarrow> resolve_pdf_url p = Some l)
   \<and> (\<forall>s. (pdf_link p = None \<or> pdf_link p = Some []) \<and> source_url p = Some s
            \<and> sublist ''.pdf'' (lower s)
        \<longrightarrow> resolve_pdf_url p = Some s)
   \<and> ((pdf_link p = None \<or> pdf_link p = Some [])
        \<and> (source_url p = None \<or> (\<exists>s. source_url p = Some s \<and> \<not> sublist ''.pdf'' (lower s)))
        \<longrightarrow> resolve_pdf_url p = None)"
  apply (intro conjI allI impI)
      apply (auto simp: resolve_pdf_url_def Let_def startswith_prefix py_in_sublist lower_def
        split: option.splits dest: prefix_two_slashes)
  done

theorem resolve_pdf_url_cases_witness:
  "resolve_pdf_url (ex_fields (Some ''//host/a.pdf'') None) = Some ''https://host/a.pdf''
   \<and> resolve_pdf_url (ex_fields (Some ''/rel.pdf'') None)
       = Some ''https://scholar.google.com/rel.pdf''
   \<and> resolve_pdf_url (ex_fields (Some ''http://h/p'') None) = Some ''http://h/p''
   \<and> resolve_pdf_url (ex_fields None (Some ''http://x.com/FILE.PDF''))
       = Some ''http://x.com/FILE.PDF''
   \<and> resolve_pdf_url (ex_fields (Some []) (Some ''http://x.com/FILE.PDF''))
       = Some ''http://x.com/FILE.PDF''
   \<and> resolve_pdf_url (ex_fields None (Some ''http://x.com/page'')) = None
   \<and> resolve_pdf_url (ex_fields None None) = None"
proof -
  have 1: "prefix ''//'' ''//host/a.pdf''" by simp
  have 2: "\<not> prefix ''//'' ''/rel.pdf'' \<and> prefix ''/'' ''/rel.pdf''" by simp
  have 3: "\<not> prefix ''/'' ''http://h/p''" by simp
  have 4: "sublist ''.pdf'' (lower ''http://x.com/FILE.PDF'')" by code_simp
  have 5: "\<not> sublist ''.pdf'' (lower ''http://x.com/page'')" by code_simp
  show ?thesis
    using resolve_pdf_url_cases [of "ex_fields (Some ''//host/a.pdf'') None"]
      resolve_pdf_url_cases [of "ex_fields (Some ''/rel.pdf'') None"]
      resolve_pdf_url_cases [of "ex_fields (Some ''http://h/p'') None"]
      resolve_pdf_url_cases [of "ex_fields None (Some ''http://x.com/FILE.PDF'')"]
      resolve_pdf_url_cases [of "ex_fields (Some []) (Some ''http://x.com/FILE.PDF'')"]
      resolve_pdf_url_cases [of "ex_fields None (Some ''http://x.com/page'')"]
      resolve_pdf_url_cases [of "ex_fields None None"]
      1 2 3 4 5
    by (simp add: ex_fields_def)
qed

section \<open>The paginated scraper\<close>

lemma extract_paper_has_pdf:
  "has_pdf (extract_paper item)
     \<longleftrightarrow> (\<exists>u. download_url (extract_paper item) = Some u \<and> u \<noteq> [])"
  by (auto simp: extract_paper_def Let_def scraped.extend_def paper.fields_def
      dest: resolve_pdf_url_nonempty)

lemma scrape_pages_set:
  "set (fst (scrape_pages e topic n pages acc tr)) \<subseteq> set acc \<union> range extract_paper"
proof (induction pages arbitrary: acc tr)
  case Nil
  then show ?case by simp
next
  case (Cons a pages)
  show ?case
    using Cons.IH [of "acc @ map extract_paper (find_results e body)" tr' for body tr']
    by (auto simp: Let_def split: response.splits) blast
qed

lemma set_slice_to: "set (slice_to xs n) \<subseteq> set xs"
  by (auto simp: slice_to_def dest: in_set_takeD)

lemma scrape_scholar_set: "set (fst (scrape_scholar e topic n)) \<subseteq> range extract_paper"
  using scrape_pages_set [of e topic n "[0..<nat (n div 10 + 1)]" "[]" "[]"] set_slice_to
  by (fastforce simp: scrape_scholar_def Let_def split: prod.splits)

lemma length_slice_to: "0 \<le> n \<Longrightarrow> int (length (slice_to xs n)) \<le> n"
  by (simp add: slice_to_def)

lemma length_scrape_scholar: "int (length (fst (scrape_scholar e topic n))) \<le> max 0 n"
proof (cases "n < 0")
  case True
  then have "n div 10 + 1 \<le> 0" by simp
  then show ?thesis using True by (simp add: scrape_scholar_def slice_to_def Let_def)
next
  case False
  then show ?thesis
    using length_slice_to [of n]
    by (auto simp: scrape_scholar_def Let_def split: prod.splits)
qed

text \<open>
  C1, as stated: the list \<open>scrape_scholar\<close> returns is at most \<open>min(desired_count, 30)\<close>
  long. A length is never negative, so the bound fails for a negative count; and
  \<open>scrape_scholar\<close> itself has no cap of 30, which the \<open>search\<close> route applies to the count
  before the call: with ten results a page, a count of 40 returns 40 papers.
\<close>

theorem scrape_length_counterexample:
  "\<not> int (length (fst (scrape_scholar (ex_env_pages 10) ''x'' (- 1)))) \<le> min (- 1) 30
   \<and> \<not> int (length (fst (scrape_scholar (ex_env_pages 10) ''x'' 40))) \<le> min 40 30"
  by code_simp

text \<open>
  C1, amended: \<open>scrape_scholar\<close> returns at most \<open>max(0, desired_count)\<close> papers; the
  \<open>search\<close> route calls it with \<open>min(num_results, 30)\<close>, so the papers of its response are
  at most \<open>max(0, min(num_results, 30))\<close>, \<open>num_results\<close> being 10 when the request has
  none.
\<close>

theorem scrape_length_bound:
  "int (length (fst (scrape_scholar e topic n))) \<le> max 0 n
   \<and> int (length (papers_of (snd (fst (search e data)))))
       \<le> max 0 (min (case get_num_results data of Some k \<Rightarrow> k | None \<Rightarrow> 10) 30)"
proof
  show "int (length (fst (scrape_scholar e topic n))) \<le> max 0 n"
    by (rule length_scrape_scholar)
next
  let ?topic = "strip (case get_topic data of Some t \<Rightarrow> t | None \<Rightarrow> ''KNN nanorods'')"
  let ?num = "min (case get_num_results data of Some k \<Rightarrow> k | None \<Rightarrow> 10) 30"
  have "set (papers_of (snd (fst (search e data)))) = {}
        \<or> papers_of (snd (fst (search e data))) = fst (scrape_scholar e ?topic ?num)"
    by (auto simp: search_def Let_def MAX_RESULTS_def split: prod.splits)
  then show "int (length (papers_of (snd (fst (search e data))))) \<le> max 0 ?num"
    using length_scrape_scholar [of e ?topic ?num] by auto
qed

theorem scrape_length_bound_witness:
  "int (length (fst (scrape_scholar (ex_env_pages 10) ''x'' 40))) \<le> 40
   \<and> int (length (fst (scrape_scholar (ex_env_pages 10) ''x'' (- 1)))) \<le> 0
   \<and> int (length (papers_of (snd (fst (search (ex_env_pages 10)
         \<lparr>get_topic = Some ''x'', get_num_results = Some 40\<rparr>))))) \<le> 30"
  using scrape_length_bound [of "ex_env_pages 10" "''x''" 40
          "\<lparr>get_topic = Some ''x'', get_num_results = Some 40\<rparr>"]
    scrape_length_bound [of "ex_env_pages 10" "''x''" "- 1"
          "\<lparr>get_topic = Some ''x'', get_num_results = Some 40\<rparr>"]
  by simp

text \<open>
  C3: in every record the scraper returns, \<open>has_pdf\<close> holds if and only if
  \<open>download_url\<close> is a text that is not empty; the resolver never returns the empty text.
\<close>

theorem scrape_has_pdf_iff:
  "\<forall>p \<in> set (fst (scrape_scholar e topic n)).
     has_pdf p \<longleftrightarrow> (\<exists>u. download_url p = Some u \<and> u \<noteq> [])"
  using scrape_scholar_set [of e topic n] extract_paper_has_pdf by blast

theorem scrape_has_pdf_iff_witness:
  "fst (scrape_scholar (ex_env_pages 1) ''x'' 1) = [extract_paper ex_block]
   \<and> has_pdf (extract_paper ex_block)
   \<and> (\<exists>u. download_url (extract_paper ex_block) = Some u \<and> u \<noteq> [])"
proof -
  have v: "fst (scrape_scholar (ex_env_pages 1) ''x'' 1) = [extract_paper ex_block]"
    by code_simp
  have h: "has_pdf (extract_paper ex_block)"
    by code_simp
  show ?thesis
    using scrape_has_pdf_iff [of "ex_env_pages 1" "''x''" 1] v h by simp
qed

text \<open>
  C9: for a negative count the page count \<open>num_results // 10 + 1\<close> is not positive, no
  page is fetched (no event at all), and the result is the empty list.
\<close>

theorem scrape_negative:
  "n < 0 \<Longrightarrow> n div 10 + 1 \<le> 0 \<and> scrape_scholar e topic n = ([], [])"
  by (simp add: scrape_scholar_def slice_to_def Let_def)

theorem scrape_negative_witness:
  "(- 5 :: int) < 0 \<and> (- 5 :: int) div 10 + 1 \<le> 0
   \<and> scrape_scholar (ex_env_pages 10) ''x'' (- 5) = ([], [])"
proof -
  have neg: "(- 5 :: int) < 0" by simp
  show ?thesis
    using scrape_negative [OF neg, of "ex_env_pages 10" "''x''"] neg by simp
qed

section \<open>Year extraction\<close>

lemma isdecimal_is_word: "isdecimal c \<Longrightarrow> is_word c"
  by (simp add: isdecimal_def is_word_def Let_def)

lemma isdecimal_digits:
  "isdecimal (CHR ''0'')" "isdecimal (CHR ''1'')" "isdecimal (CHR ''2'')" "isdecimal (CHR ''9'')"
  by (simp_all add: isdecimal_def code_point_def)

lemma year_match_here_short: "length s < 4 \<Longrightarrow> \<not> year_match_here prev s"
  by (cases "(prev, s)" rule: year_match_here.cases) auto

text \<open>
  The pattern matches at the head of the suffix \<open>s\<close> of \<open>pre @ s\<close> exactly when a year token
  starts at position \<open>length pre\<close>.
\<close>

lemma year_match_here_iff:
  "year_match_here (last_char pre) s \<longleftrightarrow> year_token_at (pre @ s) (length pre)"
proof (cases "length s < 4")
  case True
  then show ?thesis
    by (simp add: year_match_here_short year_token_at_def Let_def)
next
  case False
  then obtain a b c d rest where s: "s = a # b # c # d # rest"
    by (cases "(None :: char option, s)" rule: year_match_here.cases) auto
  have w: "[a, b] = ''19'' \<or> [a, b] = ''20'' \<Longrightarrow> is_word a \<and> isdecimal a \<and> isdecimal b"
    using isdecimal_digits isdecimal_is_word by auto
  have fr: "word_boundary (last_char pre) (Some a) \<longleftrightarrow>
      \<not> list_ex is_word (if length pre = 0 then [] else take 1 (drop (length pre - 1) (pre @ s)))"
    if "is_word a"
  proof (cases "pre = []")
    case True
    then show ?thesis using that by (simp add: word_boundary_def last_char_def)
  next
    case False
    then have "drop (length pre - 1) pre = [last pre]"
      by (metis append_butlast_last_id append_eq_conv_conj length_butlast)
    then show ?thesis using that False
      by (simp add: word_boundary_def last_char_def)
  qed
  have bk: "word_boundary (Some d) (case rest of [] \<Rightarrow> None | e # _ \<Rightarrow> Some e) \<longleftrightarrow>
      \<not> list_ex is_word (take 1 rest)" if "isdecimal d"
    using that isdecimal_is_word [of d]
    by (cases rest) (auto simp: word_boundary_def)
  show ?thesis
    unfolding s year_match_here.simps
    using w fr bk
    by (auto simp: year_token_at_def Let_def s)
qed

lemma year_token_in_range: "year_token_at text i \<Longrightarrow> i + 4 \<le> length text"
  by (auto simp: year_token_at_def Let_def)

lemma last_char_snoc: "last_char (pre @ [c]) = Some c"
  by (simp add: last_char_def)

lemma re_search_year_first:
  "year_token_at (pre @ s) i \<Longrightarrow> \<forall>j<i. \<not> year_token_at (pre @ s) j \<Longrightarrow> length pre \<le> i \<Longrightarrow>
     re_search_year (last_char pre) s = Some (take 4 (drop i (pre @ s)))"
proof (induction s arbitrary: pre)
  case Nil
  then show ?case using year_token_in_range [of pre i] by simp
next
  case (Cons c cs)
  show ?case
  proof (cases "i = length pre")
    case True
    then have "year_match_here (last_char pre) (c # cs)"
      using Cons.prems(1) by (simp add: year_match_here_iff)
    then show ?thesis using True by simp
  next
    case False
    then have lt: "length pre < i" using Cons.prems(3) by simp
    then have "\<not> year_match_here (last_char pre) (c # cs)"
      using Cons.prems(2) by (simp add: year_match_here_iff)
    then have "re_search_year (last_char pre) (c # cs) = re_search_year (last_char (pre @ [c])) cs"
      by (simp add: last_char_snoc)
    also have "\<dots> = Some (take 4 (drop i ((pre @ [c]) @ cs)))"
      using Cons.prems lt by (intro Cons.IH) simp_all
    finally show ?thesis by simp
  qed
qed

lemma re_search_year_none:
  "\<forall>i\<ge>length pre. \<not> year_token_at (pre @ s) i \<Longrightarrow> re_search_year (last_char pre) s = None"
proof (induction s arbitrary: pre)
  case Nil
  then show ?case by simp
next
  case (Cons c cs)
  then have "\<not> year_match_here (last_char pre) (c # cs)"
    by (simp add: year_match_here_iff)
  then have "re_search_year (last_char pre) (c # cs) = re_search_year (last_char (pre @ [c])) cs"
    by (simp add: last_char_snoc)
  also have "\<dots> = None"
    using Cons.prems by (intro Cons.IH) simp
  finally show ?case .
qed

lemma extract_year_spec:
  "(\<forall>i. year_token_at text i \<and> (\<forall>j<i. \<not> year_token_at text j)
        \<longrightarrow> extract_year text = take 4 (drop i text))
   \<and> ((\<forall>i. \<not> year_token_at text i) \<longrightarrow> extract_year text = ''N/A'')"
proof (intro conjI allI impI)
  fix i
  assume "year_token_at text i \<and> (\<forall>j<i. \<not> year_token_at text j)"
  then have "re_search_year (last_char []) text = Some (take 4 (drop i ([] @ text)))"
    by (intro re_search_year_first) simp_all
  then show "extract_year text = take 4 (drop i text)"
    by (simp add: extract_year_def last_char_def)
next
  assume "\<forall>i. \<not> year_token_at text i"
  then have "re_search_year (last_char []) text = None"
    by (intro re_search_year_none) simp
  then show "extract_year text = ''N/A''"
    by (simp add: extract_year_def last_char_def)
qed

lemma extract_paper_authors:
  "authors (extract_paper item) = (case info_tag item of Some a \<Rightarrow> a | None \<Rightarrow> ''Unknown'')"
  by (simp add: extract_paper_def Let_def scraped.extend_def)

lemma extract_paper_year:
  "year (extract_paper item) = extract_year (authors (extract_paper item))"
  by (simp add: extract_paper_def Let_def scraped.extend_def)

text \<open>
  C8: the record the Field Extractor builds from a result block has as authors the text
  of the byline (\<open>Unknown\<close> without one), and as year the text of the first year token of
  its authors (a token at a position before which there is none), or \<open>N/A\<close> when its
  authors hold no year token; so has every record the scraper returns.
\<close>

theorem extract_year_first_token:
  "authors (extract_paper item) = (case info_tag item of Some a \<Rightarrow> a | None \<Rightarrow> ''Unknown'')
   \<and> (\<forall>i. year_token_at (authors (extract_paper item)) i
            \<and> (\<forall>j<i. \<not> year_token_at (authors (extract_paper item)) j)
        \<longrightarrow> year (extract_paper item) = take 4 (drop i (authors (extract_paper item))))
   \<and> ((\<forall>i. \<not> year_token_at (authors (extract_paper item)) i)
        \<longrightarrow> year (extract_paper item) = ''N/A'')
   \<and> (\<forall>p \<in> set (fst (scrape_scholar e topic n)).
         (\<forall>i. year_token_at (authors p) i \<and> (\<forall>j<i. \<not> year_token_at (authors p) j)
              \<longrightarrow> year p = take 4 (drop i (authors p)))
         \<and> ((\<forall>i. \<not> year_token_at (authors p) i) \<longrightarrow> year p = ''N/A''))"
proof (intro conjI ballI)
  show "authors (extract_paper item) = (case info_tag item of Some a \<Rightarrow> a | None \<Rightarrow> ''Unknown'')"
    by (rule extract_paper_authors)
  show "\<forall>i. year_token_at (authors (extract_paper item)) i
            \<and> (\<forall>j<i. \<not> year_token_at (authors (extract_paper item)) j)
        \<longrightarrow> year (extract_paper item) = take 4 (drop i (authors (extract_paper item)))"
    unfolding extract_paper_year [of item]
    using extract_year_spec [of "authors (extract_paper item)"] by (rule conjunct1)
  show "(\<forall>i. \<not> year_token_at (authors (extract_paper item)) i)
        \<longrightarrow> year (extract_paper item) = ''N/A''"
    unfolding extract_paper_year [of item]
    using extract_year_spec [of "authors (extract_paper item)"] by (rule conjunct2)
next
  fix p
  assume "p \<in> set (fst (scrape_scholar e topic n))"
  then obtain b where p: "p = extract_paper b"
    using scrape_scholar_set [of e topic n] by blast
  show "\<forall>i. year_token_at (authors p) i \<and> (\<forall>j<i. \<not> year_token_at (authors p) j)
              \<longrightarrow> year p = take 4 (drop i (authors p))"
    unfolding p extract_paper_year [of b]
    using extract_year_spec [of "authors (extract_paper b)"] by (rule conjunct1)
  show "(\<forall>i. \<not> year_token_at (authors p) i) \<longrightarrow> year p = ''N/A''"
    unfolding p extract_paper_year [of b]
    using extract_year_spec [of "authors (extract_paper b)"] by (rule conjunct2)
qed

theorem extract_year_first_token_witness:
  "authors (extract_paper ex_block) = ''J. Smith - 2019 - Journal''
   \<and> year_token_at ''J. Smith - 2019 - Journal'' 11
   \<and> list_all (\<lambda>j. \<not> year_token_at ''J. Smith - 2019 - Journal'' j) [0..<11]
   \<and> year (extract_paper ex_block) = ''2019''
   \<and> authors (extract_paper ex_block_bare) = ''Unknown''
   \<and> list_all (\<lambda>j. \<not> year_token_at ''Unknown'' j) [0..<8]
   \<and> year (extract_paper ex_block_bare) = ''N/A''
   \<and> fst (scrape_scholar (ex_env_pages 1) ''x'' 1) = [extract_paper ex_block]
   \<and> map year (fst (scrape_scholar (ex_env_pages 1) ''x'' 1)) = [''2019'']"
proof -
  note at_block = extract_year_first_token [of ex_block "ex_env_pages 1" "''x''" 1]
  note at_bare = extract_year_first_token [of ex_block_bare "ex_env_pages 1" "''x''" 1]
  have a: "authors (extract_paper ex_block) = ''J. Smith - 2019 - Journal''"
    using at_block by (simp add: ex_block_def)
  have t: "year_token_at ''J. Smith - 2019 - Journal'' 11" by code_simp
  have f: "list_all (\<lambda>j. \<not> year_token_at ''J. Smith - 2019 - Journal'' j) [0..<11]"
    by code_simp
  then have f': "\<forall>j<11. \<not> year_token_at ''J. Smith - 2019 - Journal'' j"
    by (simp add: list_all_iff)
  have "year (extract_paper ex_block) = take 4 (drop 11 (authors (extract_paper ex_block)))"
    using at_block t f' unfolding a by blast
  then have y: "year (extract_paper ex_block) = ''2019''"
    unfolding a by simp
  have b: "authors (extract_paper ex_block_bare) = ''Unknown''"
    using at_bare by (simp add: ex_block_bare_def)
  have u: "list_all (\<lambda>j. \<not> year_token_at ''Unknown'' j) [0..<8]" by code_simp
  have "\<not> year_token_at ''Unknown'' i" for i
  proof (cases "i < 8")
    case True
    then show ?thesis using u by (simp add: list_all_iff)
  next
    case False
    then have "\<not> i + 4 \<le> length ''Unknown''" by simp
    then show ?thesis using year_token_in_range by blast
  qed
  then have none: "\<forall>i. \<not> year_token_at (authors (extract_paper ex_block_bare)) i"
    unfolding b by simp
  have "(\<forall>i. \<not> year_token_at (authors (extract_paper ex_block_bare)) i)
          \<longrightarrow> year (extract_paper ex_block_bare) = ''N/A''"
    using at_bare by blast
  then have n: "year (extract_paper ex_block_bare) = ''N/A''" using none by (rule mp)
  have v: "fst (scrape_scholar (ex_env_pages 1) ''x'' 1) = [extract_paper ex_block]"
    by code_simp
  have m: "map year (fst (scrape_scholar (ex_env_pages 1) ''x'' 1)) = [''2019'']"
    unfolding v using y by simp
  show ?thesis using a t f y b u n v m by blast
qed

section \<open>The archive builder\<close>

lemma zip_step_metadata:
  "metadata_lines (zip_step e st ip) = metadata_lines st @ report_block ip"
  by (auto simp: zip_step_def Let_def split: option.splits response.splits)


lemma zip_step_events:
  "events (zip_step e st (i, p)) =
     (case get_download_url p of
        None \<Rightarrow> events st
      | Some u \<Rightarrow>
          if u = [] then events st
          else (case http_get e (events st) u of
                  RequestException _ \<Rightarrow> events st @ [Fetch u]
                | HttpOk content \<Rightarrow>
                    if is_pdf content \<and> arcname (pdf_filename (title_or_default i p)) \<noteq> []
                    then events st @ [Fetch u, Sleep 1]
                    else events st @ [Fetch u]))"
  by (auto simp: zip_step_def Let_def split: option.splits response.splits)

lemma zip_step_zf:
  "zf (zip_step e st (i, p)) =
     (case get_download_url p of
        None \<Rightarrow> zf st
      | Some u \<Rightarrow>
          if u = [] then zf st
          else (case http_get e (events st) u of
                  RequestException _ \<Rightarrow> zf st
                | HttpOk content \<Rightarrow>
                    if is_pdf content \<and> arcname (pdf_filename (title_or_default i p)) \<noteq> []
                    then zf st @ [(arcname (pdf_filename (title_or_default i p)), content)]
                    else zf st))"
  by (auto simp: zip_step_def Let_def split: option.splits response.splits)

lemma zip_step_downloaded:
  "downloaded (zip_step e st (i, p)) =
     (case get_download_url p of
        None \<Rightarrow> downloaded st
      | Some u \<Rightarrow>
          if u = [] then downloaded st
          else (case http_get e (events st) u of
                  RequestException _ \<Rightarrow> downloaded st
                | HttpOk content \<Rightarrow>
                    if is_pdf content \<and> arcname (pdf_filename (title_or_default i p)) \<noteq> []
                    then downloaded st + 1 else downloaded st))"
  by (auto simp: zip_step_def Let_def split: option.splits response.splits)

lemma zip_step_inv: "zip_inv st \<Longrightarrow> zip_inv (zip_step e st (i, p))"
  unfolding zip_inv_def zip_step_zf zip_step_downloaded zip_step_events
  by (auto split: option.splits response.splits)

lemma zip_step_downloaded_le:
  "downloaded st \<le> downloaded (zip_step e st (i, p))
   \<and> downloaded (zip_step e st (i, p)) \<le> downloaded st + 1"
  unfolding zip_step_downloaded by (auto split: option.splits response.splits)

lemma zip_step_fetches:
  "length (filter is_fetch (events (zip_step e st (i, p))))
     = length (filter is_fetch (events st)) + (if truthy (get_download_url p) then 1 else 0)"
  unfolding zip_step_events by (auto split: option.splits response.splits)

lemma fetched_urls_append: "fetched_urls (xs @ ys) = fetched_urls xs @ fetched_urls ys"
  by (induction xs rule: fetched_urls.induct) simp_all

lemma zip_step_fetched_urls:
  "fetched_urls (events (zip_step e st (i, p))) = fetched_urls (events st) @ record_urls [p]"
  unfolding zip_step_events
  by (auto simp: fetched_urls_append split: option.splits response.splits)

lemma record_urls_Cons: "record_urls (p # ps) = record_urls [p] @ record_urls ps"
  by (simp split: option.splits)


lemma zip_fold:
  "zip_inv st \<Longrightarrow>
   zip_inv (foldl (zip_step e) st (enumerate n ps))
   \<and> metadata_lines (foldl (zip_step e) st (enumerate n ps))
       = metadata_lines st @ concat (map report_block (enumerate n ps))
   \<and> downloaded (foldl (zip_step e) st (enumerate n ps)) \<le> downloaded st + length ps
   \<and> length (filter is_fetch (events (foldl (zip_step e) st (enumerate n ps))))
       = length (filter is_fetch (events st))
         + length (filter (\<lambda>p. truthy (get_download_url p)) ps)
   \<and> fetched_urls (events (foldl (zip_step e) st (enumerate n ps)))
       = fetched_urls (events st) @ record_urls ps"
proof (induction ps arbitrary: st n)
  case Nil
  then show ?case by simp
next
  case (Cons p ps)
  let ?st = "zip_step e st (n, p)"
  have inv: "zip_inv ?st" using Cons.prems by (rule zip_step_inv)
  show ?case
    using Cons.IH [OF inv, of "Suc n"] zip_step_downloaded_le [of st e n p]
      zip_step_fetches [of e st n p] zip_step_fetched_urls [of e st n p]
      record_urls_Cons [of p ps]
    by (simp add: zip_step_metadata del: record_urls.simps)
qed


lemma zip_init_inv: "zip_inv zip_init"
  by (simp add: zip_inv_def zip_init_def)

lemma zip_loop_props:
  "zip_inv (zip_loop e papers)"
  "metadata_lines (zip_loop e papers) = concat (map report_block (enumerate 0 papers))"
  "downloaded (zip_loop e papers) \<le> length papers"
  "length (filter is_fetch (events (zip_loop e papers)))
     = length (filter (\<lambda>p. truthy (get_download_url p)) papers)"
  "fetched_urls (events (zip_loop e papers)) = record_urls papers"
  using zip_fold [OF zip_init_inv, of e 0 papers]
  by (simp_all add: zip_loop_def zip_init_def)










text \<open>
  C6: a payload whose first four bytes are not \<open>%PDF\<close> makes the single download answer
  with status 400 and an error object, no file; in the bulk download the turn for such a
  record writes no entry and leaves the counter as it is, so that every entry of the
  archive written by the loop starts with \<open>%PDF\<close>.
\<close>

theorem non_pdf_payload_rejected:
  assumes "take 4 content \<noteq> ''%PDF''"
  shows "(get_url data = Some u \<and> u \<noteq> [] \<and> http_get e [] u = HttpOk content
            \<longrightarrow> fst (download_single e data)
                  = (400, ErrorJson ''The URL does not serve a valid PDF file.''))
         \<and> (get_download_url p = Some u \<and> u \<noteq> [] \<and> http_get e (events st) u = HttpOk content
            \<longrightarrow> zf (zip_step e st (i, p)) = zf st
                \<and> downloaded (zip_step e st (i, p)) = downloaded st)
         \<and> list_all (\<lambda>entry. take 4 (snd entry) = ''%PDF'') (zf (zip_loop e papers))"
proof (intro conjI impI)
  assume "get_url data = Some u \<and> u \<noteq> [] \<and> http_get e [] u = HttpOk content"
  then show "fst (download_single e data)
      = (400, ErrorJson ''The URL does not serve a valid PDF file.'')"
    using assms by (simp add: download_single_def Let_def is_pdf_def)
next
  assume a: "get_download_url p = Some u \<and> u \<noteq> [] \<and> http_get e (events st) u = HttpOk content"
  show "zf (zip_step e st (i, p)) = zf st"
    using a assms by (simp add: zip_step_zf is_pdf_def)
  show "downloaded (zip_step e st (i, p)) = downloaded st"
    using a assms by (simp add: zip_step_downloaded is_pdf_def)
next
  show "list_all (\<lambda>entry. take 4 (snd entry) = ''%PDF'') (zf (zip_loop e papers))"
    using zip_loop_props(1) [of e papers] by (simp add: zip_inv_def list_all_iff is_pdf_def)
qed

theorem non_pdf_payload_rejected_witness:
  "take 4 ''<html>'' \<noteq> ''%PDF''
   \<and> download_single ex_env_hosts \<lparr>get_url = Some ''http://b/page'', get_req_title = Some ''t''\<rparr>
       = ((400, ErrorJson ''The URL does not serve a valid PDF file.''), [Fetch ''http://b/page''])
   \<and> zf (zip_step ex_env_hosts zip_init (0, ex_paper_json (Some ''http://b/page'') ''Landing page'')) = []
   \<and> downloaded (zip_step ex_env_hosts zip_init (0, ex_paper_json (Some ''http://b/page'') ''Landing page'')) = 0
   \<and> map snd (zf (zip_loop ex_env_hosts ex_papers)) = [''%PDF-1.4 body'']"
proof -
  have m: "take 4 ''<html>'' \<noteq> ''%PDF''" by simp
  have r: "http_get ex_env_hosts [] ''http://b/page'' = HttpOk ''<html>''"
    by (simp add: ex_env_hosts_def)
  have s: "snd (download_single ex_env_hosts
             \<lparr>get_url = Some ''http://b/page'', get_req_title = Some ''t''\<rparr>) = [Fetch ''http://b/page'']"
    by code_simp
  have z: "map snd (zf (zip_loop ex_env_hosts ex_papers)) = [''%PDF-1.4 body'']" by code_simp
  have "fst (download_single ex_env_hosts \<lparr>get_url = Some ''http://b/page'', get_req_title = Some ''t''\<rparr>)
          = (400, ErrorJson ''The URL does not serve a valid PDF file.'')
        \<and> zf (zip_step ex_env_hosts zip_init (0, ex_paper_json (Some ''http://b/page'') ''Landing page'')) = zf zip_init
        \<and> downloaded (zip_step ex_env_hosts zip_init (0, ex_paper_json (Some ''http://b/page'') ''Landing page''))
            = downloaded zip_init"
    using non_pdf_payload_rejected
            [OF m, of "\<lparr>get_url = Some ''http://b/page'', get_req_title = Some ''t''\<rparr>"
               "''http://b/page''" ex_env_hosts
               "ex_paper_json (Some ''http://b/page'') ''Landing page''" zip_init 0 ex_papers]
      r
    by (simp add: ex_paper_json_def zip_init_def)
  then show ?thesis using m s z by (simp add: zip_init_def prod_eq_iff)
qed

end
